theory Spec2Isabelle
  imports Complex_Main "HOL-Library.Multiset"
begin

section \<open>Data model of \<open>services/gameLogic.ts\<close>\<close>

text \<open>
  The types \<open>CardData\<close>, \<open>Player\<close>, \<open>Rank\<close>, \<open>Suit\<close> and \<open>BotAction\<close> are declared in
  \<open>types.ts\<close>; the model takes the fields that \<open>gameLogic.ts\<close> reads and writes.
  \<open>Rank\<close> and \<open>Suit\<close> are used as template-string fragments and as property keys, so
  they are strings. Card values and scores are JavaScript numbers holding integers; they
  are modelled by \<open>int\<close>. The fields \<open>id\<close>, \<open>suit\<close>, \<open>rank\<close>, \<open>value\<close> of a card and
  \<open>id\<close>, \<open>hand\<close> of a player carry the prefixes \<open>card_\<close> and \<open>player_\<close>, because
  \<open>id\<close> is a constant of HOL.
\<close>

record CardData =
  card_id :: string
  card_suit :: string
  card_rank :: string
  card_value :: int

record Player =
  player_id :: int
  player_hand :: "CardData list"

text \<open>The entries \<open>{ playerId, roundScore }\<close> that \<open>getRoundScores\<close> returns.\<close>

record RoundScore =
  playerId :: int
  roundScore :: int

text \<open>
  \<open>BotAction\<close>: the object literals \<open>{ type: 'TOSS', cardIds }\<close>, \<open>{ type: 'SHOW' }\<close> and
  \<open>{ type: 'DISCARD', cardIds }\<close>.
\<close>

datatype BotAction = TOSS "string list" | SHOW | DISCARD "string list"

text \<open>The only exception the functions below can raise is the runtime's \<open>TypeError\<close>.\<close>

datatype js_error = TypeError

section \<open>Deck management: \<open>shuffleDeck\<close> and \<open>createDeck\<close>\<close>

text \<open>
  \<open>Math.random()\<close> is modelled by the sequence of its results: \<open>rnd k\<close> is what the
  call number \<open>k\<close> returns, a number that is at least 0 and less than 1.
  The index \<open>Math.floor(Math.random() * (i + 1))\<close> is computed on the reals; the
  theorems use of the product only that its floor is an index from 0 to \<open>i\<close>.
\<close>

type_synonym random_source = "nat \<Rightarrow> real"

definition unit_interval :: "random_source \<Rightarrow> bool" where
  "unit_interval rnd = (\<forall>k. 0 \<le> rnd k \<and> rnd k < 1)"

definition random_index :: "real \<Rightarrow> nat \<Rightarrow> nat" where
  "random_index r i = nat \<lfloor>r * real (i + 1)\<rfloor>"

text \<open>
  Arrays are mutable objects, and \<open>shuffleDeck\<close> writes to one. The store holds the
  arrays by address: the address of an array is its position in the store, and a new array
  is put at the end. \<open>[...deck]\<close> creates a new array with the elements of \<open>deck\<close>.
\<close>

type_synonym 'a store = "'a list list"

text \<open>
  \<open>[newDeck[i], newDeck[j]] = [newDeck[j], newDeck[i]]\<close>: both elements are read
  before the first is written.
\<close>

definition swap :: "'a list \<Rightarrow> nat \<Rightarrow> nat \<Rightarrow> 'a list" where
  "swap a i j = a[i := a ! j, j := a ! i]"

text \<open>
  The loop \<open>for (let i = newDeck.length - 1; i > 0; i--)\<close>, started at \<open>i\<close> with
  \<open>k\<close> calls of \<open>Math.random\<close> made before. An empty deck starts at \<open>-1\<close> and a deck of
  one card at 0; in both cases the body does not run, as from 0 here.
\<close>

fun shuffle_loop :: "random_source \<Rightarrow> nat \<Rightarrow> nat \<Rightarrow> nat \<Rightarrow> 'a store \<Rightarrow> 'a store" where
  "shuffle_loop rnd newDeck 0 k st = st"
| "shuffle_loop rnd newDeck (Suc n) k st =
     (let i = Suc n;
          j = random_index (rnd k) i
      in shuffle_loop rnd newDeck n (Suc k) (st[newDeck := swap (st ! newDeck) i j]))"

definition shuffleDeck :: "random_source \<Rightarrow> 'a store \<Rightarrow> nat \<Rightarrow> nat \<times> 'a store" where
  "shuffleDeck rnd st deck =
     (let newDeck = length st;
          st1 = st @ [st ! deck]
      in (newDeck, shuffle_loop rnd newDeck (length (st1 ! newDeck) - 1) 0 st1))"

text \<open>
  The Fisher--Yates scheme in the words of the specification: for each index \<open>i\<close> from
  the last down to 1, the elements at \<open>i\<close> and at the index drawn for \<open>i\<close> are swapped.
\<close>

fun fisher_yates :: "(nat \<Rightarrow> nat) \<Rightarrow> nat \<Rightarrow> 'a list \<Rightarrow> 'a list" where
  "fisher_yates draw 0 xs = xs"
| "fisher_yates draw (Suc n) xs = fisher_yates draw n (swap xs (Suc n) (draw (Suc n)))"

text \<open>
  The index drawn for \<open>i\<close> when an array of \<open>n\<close> elements is shuffled: the loop reaches
  \<open>i\<close> after \<open>n - 1 - i\<close> calls of \<open>Math.random\<close>.
\<close>

definition drawn :: "random_source \<Rightarrow> nat \<Rightarrow> nat \<Rightarrow> nat" where
  "drawn rnd n i = random_index (rnd (n - 1 - i)) i"

text \<open>
  The template string \<open>card-${idCounter++}-${rank}-${suit}\<close>; a number is printed in
  decimal.
\<close>

definition digit_char :: "nat \<Rightarrow> char" where
  "digit_char d = ''0123456789'' ! d"

fun string_of_nat :: "nat \<Rightarrow> string" where
  "string_of_nat n =
     (if n < 10 then [digit_char n] else string_of_nat (n div 10) @ [digit_char (n mod 10)])"

declare string_of_nat.simps [simp del]

definition card_name :: "nat \<Rightarrow> string \<Rightarrow> string \<Rightarrow> string" where
  "card_name idCounter rank suit = ''card-'' @ string_of_nat idCounter @ ''-'' @ rank @ ''-'' @ suit"

text \<open>
  The constants \<open>SUITS\<close>, \<open>RANKS\<close> and \<open>RANK_VALUES\<close> come from \<open>constants.ts\<close> and
  are parameters here: two arrays of strings and a table from ranks to numbers. The two
  nested iterations carry the array \<open>deck\<close> under construction and \<open>idCounter\<close>.
\<close>

definition new_card :: "(string \<Rightarrow> int) \<Rightarrow> nat \<Rightarrow> string \<Rightarrow> string \<Rightarrow> CardData" where
  "new_card RANK_VALUES idCounter suit rank =
     \<lparr>card_id = card_name idCounter rank suit, card_suit = suit, card_rank = rank,
      card_value = RANK_VALUES rank\<rparr>"

fun rank_loop ::
  "(string \<Rightarrow> int) \<Rightarrow> string \<Rightarrow> string list \<Rightarrow> CardData list \<times> nat \<Rightarrow> CardData list \<times> nat" where
  "rank_loop RANK_VALUES suit [] (deck, idCounter) = (deck, idCounter)"
| "rank_loop RANK_VALUES suit (rank # ranks) (deck, idCounter) =
     rank_loop RANK_VALUES suit ranks
       (deck @ [new_card RANK_VALUES idCounter suit rank], idCounter + 1)"

fun suit_loop ::
  "string list \<Rightarrow> (string \<Rightarrow> int) \<Rightarrow> string list \<Rightarrow> CardData list \<times> nat \<Rightarrow> CardData list \<times> nat" where
  "suit_loop RANKS RANK_VALUES [] acc = acc"
| "suit_loop RANKS RANK_VALUES (suit # suits) acc =
     suit_loop RANKS RANK_VALUES suits (rank_loop RANK_VALUES suit RANKS acc)"

definition createDeck ::
  "string list \<Rightarrow> string list \<Rightarrow> (string \<Rightarrow> int) \<Rightarrow> random_source \<Rightarrow> CardData store
     \<Rightarrow> nat \<times> CardData store" where
  "createDeck SUITS RANKS RANK_VALUES rnd st =
     (let deck = length st;
          cards = fst (suit_loop RANKS RANK_VALUES SUITS ([], 0))
      in shuffleDeck rnd (st @ [cards]) deck)"

text \<open>
  The cards that the nested iterations build from a list of pairs of suit and rank, numbered from
  \<open>n\<close>.
\<close>

definition numbered :: "(string \<Rightarrow> int) \<Rightarrow> nat \<Rightarrow> (string \<times> string) list \<Rightarrow> CardData list" where
  "numbered RANK_VALUES n ps =
     map (\<lambda>(k, (suit, rank)). new_card RANK_VALUES k suit rank) (List.enumerate n ps)"

text \<open>The array that a call returned, and the pair of suit and rank of a card.\<close>

definition returned :: "nat \<times> 'a store \<Rightarrow> 'a list" where
  "returned res = snd res ! fst res"

definition suit_rank :: "CardData \<Rightarrow> string \<times> string" where
  "suit_rank c = (card_suit c, card_rank c)"

section \<open>Scoring: \<open>calculateHandValue\<close>\<close>

text \<open>
  \<open>Array.prototype.reduce\<close> with an initial value is a left fold. The joker is
  \<open>CardData | null\<close>; \<open>!joker\<close> holds exactly for \<open>null\<close>.
\<close>

definition calculateHandValue :: "CardData list \<Rightarrow> CardData option \<Rightarrow> int" where
  "calculateHandValue hand joker =
     (case joker of
        None \<Rightarrow> foldl (\<lambda>sum card. sum + card_value card) 0 hand
      | Some j \<Rightarrow>
          foldl (\<lambda>sum card.
                   if card_rank card = card_rank j \<and> card_suit card = card_suit j
                   then sum + 0
                   else sum + card_value card) 0 hand)"

text \<open>
  The \<open>val\<close> of the discard rule,
  \<^verbatim>\<open>(c.rank === joker?.rank && c.suit === joker?.suit) ? 0 : c.value\<close>:
  0 for a card whose rank and suit are both the joker's, the card's own value otherwise.
  For the joker \<open>null\<close> both comparisons are with \<open>undefined\<close> and fail. The
  specification calls it the effective value of the card.
\<close>

definition effective_value :: "CardData option \<Rightarrow> CardData \<Rightarrow> int" where
  "effective_value joker c =
     (case joker of
        None \<Rightarrow> card_value c
      | Some j \<Rightarrow> if card_rank c = card_rank j \<and> card_suit c = card_suit j then 0
                  else card_value c)"

section \<open>Scoring: \<open>getRoundScores\<close>\<close>

text \<open>
  \<open>players[callerIndex]\<close> is \<open>undefined\<close> unless \<open>callerIndex\<close> is an index of the
  array, and reading \<open>.id\<close> of \<open>undefined\<close> throws a \<open>TypeError\<close>. The expression
  stands inside the callbacks of \<open>find\<close> and \<open>map\<close>, so it is evaluated once for each
  element visited and not at all on an empty array.
\<close>

definition array_get :: "'a list \<Rightarrow> int \<Rightarrow> 'a option" where
  "array_get xs i = (if 0 \<le> i \<and> i < int (length xs) then Some (xs ! nat i) else None)"

definition caller_id :: "Player list \<Rightarrow> int \<Rightarrow> js_error + int" where
  "caller_id players callerIndex =
     (case array_get players callerIndex of
        None \<Rightarrow> Inl TypeError
      | Some p \<Rightarrow> Inr (player_id p))"

text \<open>\<open>Array.prototype.find\<close> and \<open>Array.prototype.map\<close> with a callback that may throw.\<close>

fun array_find :: "('a \<Rightarrow> js_error + bool) \<Rightarrow> 'a list \<Rightarrow> js_error + 'a option" where
  "array_find f [] = Inr None"
| "array_find f (x # xs) =
     (case f x of
        Inl e \<Rightarrow> Inl e
      | Inr b \<Rightarrow> if b then Inr (Some x) else array_find f xs)"

fun array_map :: "('a \<Rightarrow> js_error + 'b) \<Rightarrow> 'a list \<Rightarrow> js_error + 'b list" where
  "array_map f [] = Inr []"
| "array_map f (x # xs) =
     (case f x of
        Inl e \<Rightarrow> Inl e
      | Inr y \<Rightarrow> (case array_map f xs of Inl e \<Rightarrow> Inl e | Inr ys \<Rightarrow> Inr (y # ys)))"

text \<open>
  \<open>Math.min(...vals)\<close>: the least argument, and \<open>Infinity\<close> when there is none.
  \<open>None\<close> stands for \<open>Infinity\<close>, which equals no hand value.
\<close>

definition math_min :: "int list \<Rightarrow> int option" where
  "math_min vs = (case vs of [] \<Rightarrow> None | v # rest \<Rightarrow> Some (foldl min v rest))"

text \<open>The objects \<open>{ id, val }\<close> of the array \<open>handValues\<close>.\<close>

record HandValue =
  hv_id :: int
  hv_val :: int

text \<open>
  \<open>found?.val || 0\<close>: 0 when \<open>find\<close> returned \<open>undefined\<close> and when the value found is
  the falsy number 0, the value found otherwise.
\<close>

definition val_or_zero :: "HandValue option \<Rightarrow> int" where
  "val_or_zero found =
     (case found of None \<Rightarrow> 0 | Some h \<Rightarrow> if hv_val h = 0 then 0 else hv_val h)"

definition getRoundScores ::
  "Player list \<Rightarrow> int \<Rightarrow> CardData option \<Rightarrow> js_error + RoundScore list" where
  "getRoundScores players callerIndex joker =
     (let handValues =
            map (\<lambda>p. \<lparr>hv_id = player_id p,
                       hv_val = calculateHandValue (player_hand p) joker\<rparr>) players
      in case array_find
                (\<lambda>h. case caller_id players callerIndex of
                        Inl e \<Rightarrow> Inl e
                      | Inr c \<Rightarrow> Inr (hv_id h = c)) handValues of
           Inl e \<Rightarrow> Inl e
         | Inr found \<Rightarrow>
             (let callerValue = val_or_zero found;
                  lowestValue = math_min (map hv_val handValues);
                  winnersCount = length (filter (\<lambda>h. Some (hv_val h) = lowestValue) handValues);
                  callerIsLowest = (Some callerValue = lowestValue)
              in array_map
                   (\<lambda>p. let handVal = calculateHandValue (player_hand p) joker
                         in case caller_id players callerIndex of
                              Inl e \<Rightarrow> Inl e
                            | Inr c \<Rightarrow>
                                Inr \<lparr>playerId = player_id p,
                                     roundScore =
                                       (if player_id p = c then
                                          (if callerIsLowest \<and> winnersCount = 1 then 0
                                           else if callerIsLowest \<and> winnersCount > 1 then 25
                                           else 50)
                                        else handVal)\<rparr>) players))"

text \<open>
  The notions of the settlement rule as the specification words them: the hand values of
  the players, the lowest of them, the number of players holding it, and the caller's
  score in the three cases.
\<close>

definition hand_values :: "Player list \<Rightarrow> CardData option \<Rightarrow> int list" where
  "hand_values players joker = map (\<lambda>p. calculateHandValue (player_hand p) joker) players"

definition lowest :: "Player list \<Rightarrow> CardData option \<Rightarrow> int" where
  "lowest players joker = Min (set (hand_values players joker))"

definition winners :: "Player list \<Rightarrow> CardData option \<Rightarrow> nat" where
  "winners players joker =
     length (filter (\<lambda>v. v = lowest players joker) (hand_values players joker))"

definition case_score :: "int \<Rightarrow> int \<Rightarrow> nat \<Rightarrow> int" where
  "case_score callerValue low n =
     (if callerValue = low \<and> n = 1 then 0
      else if callerValue = low \<and> n > 1 then 25
      else 50)"

definition valid_index :: "'a list \<Rightarrow> int \<Rightarrow> bool" where
  "valid_index xs i = (0 \<le> i \<and> i < int (length xs))"

text \<open>
  The value that the lookup by id finds for the caller: the hand value of the first player
  who carries the id of \<open>players[callerIndex]\<close>, and 0 when there is none. The entry
  that the final \<open>map\<close> builds from one player, for a valid \<open>callerIndex\<close>.
\<close>

definition caller_value :: "Player list \<Rightarrow> int \<Rightarrow> CardData option \<Rightarrow> int" where
  "caller_value players callerIndex joker =
     (case List.find (\<lambda>p. player_id p = player_id (players ! nat callerIndex)) players of
        None \<Rightarrow> 0
      | Some p \<Rightarrow> calculateHandValue (player_hand p) joker)"

definition settled :: "Player list \<Rightarrow> int \<Rightarrow> CardData option \<Rightarrow> Player \<Rightarrow> RoundScore" where
  "settled players callerIndex joker p =
     \<lparr>playerId = player_id p,
      roundScore =
        (if player_id p = player_id (players ! nat callerIndex)
         then case_score (caller_value players callerIndex joker)
                (lowest players joker) (winners players joker)
         else calculateHandValue (player_hand p) joker)\<rparr>"

section \<open>Bot logic: \<open>decideBotAction\<close>\<close>

text \<open>
  \<open>rankCounts\<close> is an ordinary object created by the literal \<open>{}\<close>. Its own properties
  are kept as an association list in the order of their creation; from its prototype
  \<open>Object.prototype\<close> it inherits the members listed in \<open>object_prototype_keys\<close>, each
  of them a function or an object, hence truthy and without a method \<open>push\<close>.
\<close>

type_synonym rank_counts = "(string \<times> CardData list) list"

definition object_prototype_keys :: "string list" where
  "object_prototype_keys =
     [''constructor'', ''__defineGetter__'', ''__defineSetter__'', ''hasOwnProperty'',
      ''__lookupGetter__'', ''__lookupSetter__'', ''isPrototypeOf'',
      ''propertyIsEnumerable'', ''toString'', ''valueOf'', ''__proto__'',
      ''toLocaleString'']"

datatype prop_value = Cards "CardData list" | Inherited | Undefined

definition get_prop :: "rank_counts \<Rightarrow> string \<Rightarrow> prop_value" where
  "get_prop obj k =
     (case map_of obj k of
        Some cards \<Rightarrow> Cards cards
      | None \<Rightarrow> if k \<in> set object_prototype_keys then Inherited else Undefined)"

text \<open>
  Assignment to a property: an existing own property keeps its place, a new one is created
  after all the others.
\<close>

fun set_prop :: "string \<Rightarrow> CardData list \<Rightarrow> rank_counts \<Rightarrow> rank_counts" where
  "set_prop k v [] = [(k, v)]"
| "set_prop k v ((k', v') # obj) =
     (if k' = k then (k, v) # obj else (k', v') # set_prop k v obj)"

text \<open>
  The body of the first loop:
  \<^verbatim>\<open>if (!rankCounts[card.rank]) rankCounts[card.rank] = [];\<close>
  \<^verbatim>\<open>rankCounts[card.rank].push(card);\<close>
  Only \<open>undefined\<close> is falsy among the values a property can have here; calling \<open>push\<close>
  on an inherited member throws a \<open>TypeError\<close>.
\<close>

definition push_card :: "rank_counts \<Rightarrow> CardData \<Rightarrow> js_error + rank_counts" where
  "push_card rankCounts c =
     (let rankCounts1 =
            (case get_prop rankCounts (card_rank c) of
               Undefined \<Rightarrow> set_prop (card_rank c) [] rankCounts
             | _ \<Rightarrow> rankCounts)
      in case get_prop rankCounts1 (card_rank c) of
           Cards cards \<Rightarrow> Inr (set_prop (card_rank c) (cards @ [c]) rankCounts1)
         | _ \<Rightarrow> Inl TypeError)"

fun group_by_rank :: "CardData list \<Rightarrow> rank_counts \<Rightarrow> js_error + rank_counts" where
  "group_by_rank [] rankCounts = Inr rankCounts"
| "group_by_rank (c # hand) rankCounts =
     (case push_card rankCounts c of
        Inl e \<Rightarrow> Inl e
      | Inr rankCounts' \<Rightarrow> group_by_rank hand rankCounts')"

text \<open>
  \<open>for (const rank in rankCounts)\<close> visits the own property keys in the order of the
  language: first the keys that are array indices (the canonical decimal numerals of the
  integers from 0 to \<open>2\<^sup>3\<^sup>2 - 2\<close>) in ascending numeric order, then the other keys in the
  order of their creation. \<open>Object.prototype\<close> has no enumerable member.
\<close>

definition is_digit :: "char \<Rightarrow> bool" where
  "is_digit c = (c \<in> set ''0123456789'')"

definition digit_value :: "char \<Rightarrow> nat" where
  "digit_value c = of_char c - of_char CHR ''0''"

definition numeric_value :: "string \<Rightarrow> nat" where
  "numeric_value k = foldl (\<lambda>n c. 10 * n + digit_value c) 0 k"

definition is_array_index :: "string \<Rightarrow> bool" where
  "is_array_index k =
     (k \<noteq> [] \<and> list_all is_digit k \<and> (k = ''0'' \<or> hd k \<noteq> CHR ''0'')
      \<and> numeric_value k < 2 ^ 32 - 1)"

definition own_property_keys :: "string list \<Rightarrow> string list" where
  "own_property_keys created =
     sort_key numeric_value (filter is_array_index created)
     @ filter (\<lambda>k. \<not> is_array_index k) created"

text \<open>
  The body of the second loop; \<open>rankCounts[rank]\<close> is read for keys of the object itself,
  and reading \<open>length\<close> of \<open>undefined\<close> would throw.
\<close>

fun find_pair :: "rank_counts \<Rightarrow> string list \<Rightarrow> js_error + BotAction option" where
  "find_pair rankCounts [] = Inr None"
| "find_pair rankCounts (rank # ranks) =
     (case map_of rankCounts rank of
        None \<Rightarrow> Inl TypeError
      | Some cards \<Rightarrow>
          if length cards \<ge> 2 then Inr (Some (TOSS [card_id (cards ! 0), card_id (cards ! 1)]))
          else find_pair rankCounts ranks)"

text \<open>
  The callback of \<open>hand.forEach\<close> in the discard rule, on the pair
  \<open>(highestCard, highestVal)\<close>. \<open>highestCard\<close> starts as \<open>hand[0]\<close>, which is
  \<open>undefined\<close> for an empty hand; reading \<open>.id\<close> of it would throw.
\<close>

definition discard_step ::
  "CardData option \<Rightarrow> CardData option \<times> int \<Rightarrow> CardData \<Rightarrow> CardData option \<times> int" where
  "discard_step joker st c =
     (let val = effective_value joker c
      in if val > snd st then (Some c, val) else st)"

definition first_card :: "CardData list \<Rightarrow> CardData option" where
  "first_card hand = (case hand of [] \<Rightarrow> None | c # _ \<Rightarrow> Some c)"

definition decideBotAction :: "Player \<Rightarrow> CardData option \<Rightarrow> bool \<Rightarrow> js_error + BotAction" where
  "decideBotAction player joker tossedThisTurn =
     (let hand = player_hand player;
          currentScore = calculateHandValue hand joker;
          toss =
            (if \<not> tossedThisTurn then
               (case group_by_rank hand [] of
                  Inl e \<Rightarrow> Inl e
                | Inr rankCounts \<Rightarrow>
                    find_pair rankCounts (own_property_keys (map fst rankCounts)))
             else Inr None)
      in case toss of
           Inl e \<Rightarrow> Inl e
         | Inr (Some action) \<Rightarrow> Inr action
         | Inr None \<Rightarrow>
             if currentScore \<le> 5 then Inr SHOW
             else (case fst (foldl (discard_step joker) (first_card hand, - 1) hand) of
                     None \<Rightarrow> Inl TypeError
                   | Some highestCard \<Rightarrow> Inr (DISCARD [card_id highestCard])))"

text \<open>
  The notions of the bot rules as the specification words them: the cards of one rank in
  hand order, a rank with at least two cards, the ranks of a hand in first-seen order,
  the hands whose ranks are pairwise different, and the largest effective value of a hand.
  \<open>rank_names\<close> holds of a hand none of whose ranks is a member name of
  \<open>Object.prototype\<close>; the values of the type \<open>Rank\<close> are names of card ranks.
\<close>

definition cards_of_rank :: "string \<Rightarrow> CardData list \<Rightarrow> CardData list" where
  "cards_of_rank r hand = filter (\<lambda>c. card_rank c = r) hand"

definition has_pair :: "CardData list \<Rightarrow> string \<Rightarrow> bool" where
  "has_pair hand r = (2 \<le> length (cards_of_rank r hand))"

fun first_seen :: "'a list \<Rightarrow> 'a list" where
  "first_seen [] = []"
| "first_seen (x # xs) = x # filter (\<lambda>y. y \<noteq> x) (first_seen xs)"

definition pairless :: "CardData list \<Rightarrow> bool" where
  "pairless hand = distinct (map card_rank hand)"

definition rank_names :: "CardData list \<Rightarrow> bool" where
  "rank_names hand = list_all (\<lambda>c. card_rank c \<notin> set object_prototype_keys) hand"

definition max_effective :: "CardData option \<Rightarrow> CardData list \<Rightarrow> int" where
  "max_effective joker hand = Max (set (map (effective_value joker) hand))"

definition is_max :: "CardData option \<Rightarrow> CardData list \<Rightarrow> CardData \<Rightarrow> bool" where
  "is_max joker hand c = (effective_value joker c = max_effective joker hand)"

text \<open>
  The table that the first loop builds from a hand with proper rank names, the rank whose
  pair the second loop finds (\<open>toss_rank\<close>: the first rank with two cards in the order
  of \<open>own_property_keys\<close>), the rank that first-seen order alone would give
  (\<open>first_seen_pair_rank\<close>), and the ids of the first two cards of a rank in hand order.
\<close>

definition grouped :: "CardData list \<Rightarrow> rank_counts" where
  "grouped hand = map (\<lambda>r. (r, cards_of_rank r hand)) (first_seen (map card_rank hand))"

definition toss_rank :: "CardData list \<Rightarrow> string option" where
  "toss_rank hand = List.find (has_pair hand) (own_property_keys (first_seen (map card_rank hand)))"

definition first_seen_pair_rank :: "CardData list \<Rightarrow> string option" where
  "first_seen_pair_rank hand = List.find (has_pair hand) (first_seen (map card_rank hand))"

definition first_two_ids :: "string \<Rightarrow> CardData list \<Rightarrow> string list" where
  "first_two_ids r hand = map card_id (take 2 (cards_of_rank r hand))"

section \<open>Example inputs\<close>

definition card_of :: "string \<Rightarrow> string \<Rightarrow> string \<Rightarrow> int \<Rightarrow> CardData" where
  "card_of i r s v = \<lparr>card_id = i, card_suit = s, card_rank = r, card_value = v\<rparr>"

definition players_A :: "Player list" where
  "players_A =
     [\<lparr>player_id = 0, player_hand = [card_of ''card-2-3-hearts'' ''3'' ''hearts'' 3]\<rparr>,
      \<lparr>player_id = 1, player_hand = [card_of ''card-9-10-hearts'' ''10'' ''hearts'' 10]\<rparr>,
      \<lparr>player_id = 2, player_hand = [card_of ''card-7-8-hearts'' ''8'' ''hearts'' 8]\<rparr>]"

definition players_dup :: "Player list" where
  "players_dup =
     [\<lparr>player_id = 1, player_hand = [card_of ''card-8-9-hearts'' ''9'' ''hearts'' 9]\<rparr>,
      \<lparr>player_id = 1, player_hand = [card_of ''card-1-2-hearts'' ''2'' ''hearts'' 2]\<rparr>]"

definition hand_two_pairs :: "CardData list" where
  "hand_two_pairs =
     [card_of ''card-12-K-spades'' ''K'' ''spades'' 13,
      card_of ''card-25-K-hearts'' ''K'' ''hearts'' 13,
      card_of ''card-6-7-spades'' ''7'' ''spades'' 7,
      card_of ''card-19-7-hearts'' ''7'' ''hearts'' 7]"

definition hand_faces :: "CardData list" where
  "hand_faces =
     [card_of ''card-12-K-spades'' ''K'' ''spades'' 10,
      card_of ''card-24-Q-hearts'' ''Q'' ''hearts'' 10,
      card_of ''card-11-Q-spades'' ''Q'' ''spades'' 10,
      card_of ''card-25-K-hearts'' ''K'' ''hearts'' 10]"

definition hand_five :: "CardData list" where
  "hand_five =
     [card_of ''card-1-2-spades'' ''2'' ''spades'' 2,
      card_of ''card-15-3-hearts'' ''3'' ''hearts'' 3]"

definition hand_six :: "CardData list" where
  "hand_six =
     [card_of ''card-1-2-spades'' ''2'' ''spades'' 2,
      card_of ''card-16-4-hearts'' ''4'' ''hearts'' 4]"


definition joker_K_hearts :: "CardData option" where
  "joker_K_hearts = Some (card_of ''card-25-K-hearts'' ''K'' ''hearts'' 10)"

definition bot :: "CardData list \<Rightarrow> Player" where
  "bot hand = \<lparr>player_id = 1, player_hand = hand\<rparr>"

definition example_store :: "string store" where
  "example_store = [''A'', ''B'', ''C'', ''D''] # []"

definition half :: random_source where
  "half k = 1 / 2"

definition two_suits :: "string list" where
  "two_suits = [''hearts'', ''spades'']"

definition two_ranks :: "string list" where
  "two_ranks = [''A'', ''K'']"

definition two_values :: "string \<Rightarrow> int" where
  "two_values r = (if r = ''A'' then 1 else 10)"

section \<open>Properties of \<open>calculateHandValue\<close>\<close>

lemma foldl_plus_sum_list:
  "foldl (\<lambda>s c. s + f c) (a::int) xs = a + sum_list (map f xs)"
  by (induction xs arbitrary: a) simp_all

lemma foldl_joker_sum_list:
  "foldl (\<lambda>s c. if P c then s + 0 else s + f c) (a::int) xs
     = a + sum_list (map (\<lambda>c. if P c then 0 else f c) xs)"
  by (induction xs arbitrary: a) simp_all

lemma effective_value_None: "effective_value None = card_value"
  by (rule ext) (simp add: effective_value_def)

lemma effective_value_Some:
  "effective_value (Some j)
     = (\<lambda>c. if card_rank c = card_rank j \<and> card_suit c = card_suit j then 0
             else card_value c)"
  by (rule ext) (simp add: effective_value_def)

lemma calculateHandValue_effective:
  "calculateHandValue hand joker = sum_list (map (effective_value joker) hand)"
  by (cases joker)
     (simp_all add: calculateHandValue_def effective_value_None effective_value_Some
        foldl_plus_sum_list foldl_joker_sum_list)

text \<open>
  Claim C2. Without a joker the value of a hand is the sum of the cards' values. With a
  joker it is the sum in which every card whose rank and suit both equal the joker's
  counts 0 and every other card counts its value, however many cards match. The function
  has no failing branch: it is a total function into the integers.
\<close>

theorem calculateHandValue_sum:
  "calculateHandValue hand None = sum_list (map card_value hand) \<and>
   calculateHandValue hand (Some j)
     = sum_list (map (\<lambda>c. if card_rank c = card_rank j \<and> card_suit c = card_suit j
                            then 0 else card_value c) hand)"
  by (simp add: calculateHandValue_def foldl_plus_sum_list foldl_joker_sum_list)

text \<open>
  Claim C9. The value of the empty hand is 0, whether the joker is present or absent.
\<close>

theorem calculateHandValue_empty:
  "calculateHandValue [] joker = 0"
  by (cases joker) (simp_all add: calculateHandValue_def)

section \<open>Properties of \<open>getRoundScores\<close>\<close>

lemma array_find_total:
  "array_find (\<lambda>x. Inr (P x)) xs = Inr (List.find P xs)"
  by (induction xs) simp_all

lemma array_map_total:
  "array_map (\<lambda>x. Inr (g x)) xs = Inr (map g xs)"
  by (induction xs) simp_all

lemma array_find_throw:
  "xs \<noteq> [] \<Longrightarrow> array_find (\<lambda>x. Inl e) xs = Inl e"
  by (cases xs) simp_all

lemma foldl_min_Min: "foldl min (a::int) xs = Min (insert a (set xs))"
proof (induction xs arbitrary: a)
  case Nil
  then show ?case by simp
next
  case (Cons x xs)
  have "Min (insert (min a x) (set xs)) = Min (insert a (insert x (set xs)))"
  proof (cases "set xs = {}")
    case True
    then show ?thesis by (simp add: min.commute)
  next
    case False
    then show ?thesis by (simp add: min.assoc)
  qed
  with Cons show ?case by simp
qed

lemma math_min_Min:
  "vs \<noteq> [] \<Longrightarrow> math_min vs = Some (Min (set vs))"
  by (cases vs) (simp_all add: math_min_def foldl_min_Min)

lemma find_map_comp: "List.find P (map f xs) = map_option f (List.find (\<lambda>x. P (f x)) xs)"
  by (induction xs) simp_all

lemma caller_id_valid:
  "valid_index players i \<Longrightarrow> caller_id players i = Inr (player_id (players ! nat i))"
  by (simp add: caller_id_def array_get_def valid_index_def)

lemma caller_id_invalid:
  "\<not> valid_index players i \<Longrightarrow> caller_id players i = Inl TypeError"
  by (simp add: caller_id_def array_get_def valid_index_def)

lemma getRoundScores_valid:
  assumes "valid_index players i"
  shows "getRoundScores players i joker = Inr (map (settled players i joker) players)"
proof -
  let ?c = "player_id (players ! nat i)"
  let ?hv = "map (\<lambda>p. \<lparr>hv_id = player_id p,
                       hv_val = calculateHandValue (player_hand p) joker\<rparr>) players"
  from assms have ne: "players \<noteq> []" by (auto simp: valid_index_def)
  have cid: "caller_id players i = Inr ?c" using assms by (rule caller_id_valid)
  have found: "val_or_zero (List.find (\<lambda>h. hv_id h = ?c) ?hv) = caller_value players i joker"
    by (simp add: find_map_comp caller_value_def val_or_zero_def split: option.splits)
  have vals: "map hv_val ?hv = hand_values players joker"
    by (simp add: hand_values_def comp_def)
  have low: "math_min (map hv_val ?hv) = Some (lowest players joker)"
    unfolding vals lowest_def using ne by (intro math_min_Min) (simp add: hand_values_def)
  have win: "length (filter (\<lambda>h. Some (hv_val h) = Some (lowest players joker)) ?hv)
               = winners players joker"
    by (simp add: winners_def hand_values_def filter_map comp_def)
  show ?thesis
    apply (simp only: getRoundScores_def Let_def cid sum.case array_find_total found low win
             array_map_total)
    apply (simp add: settled_def [abs_def] case_score_def)
    done
qed

lemma getRoundScores_invalid:
  assumes "players \<noteq> []" "\<not> valid_index players i"
  shows "getRoundScores players i joker = Inl TypeError"
proof -
  have cid: "caller_id players i = Inl TypeError" using assms(2) by (rule caller_id_invalid)
  show ?thesis
    unfolding getRoundScores_def Let_def cid using assms(1)
    by (simp add: array_find_throw)
qed

lemma getRoundScores_empty: "getRoundScores [] i joker = Inr []"
  by (simp add: getRoundScores_def)

lemma find_distinct_nth:
  "distinct (map f xs) \<Longrightarrow> i < length xs \<Longrightarrow> List.find (\<lambda>x. f x = f (xs ! i)) xs = Some (xs ! i)"
proof (induction xs arbitrary: i)
  case Nil
  then show ?case by simp
next
  case (Cons x xs)
  show ?case
  proof (cases i)
    case 0
    then show ?thesis by simp
  next
    case (Suc k)
    with Cons.prems have "k < length xs" and "f (xs ! k) \<in> f ` set xs" and "f x \<notin> f ` set xs"
      by auto
    then have "f x \<noteq> f (xs ! k)" by metis
    with Cons Suc show ?thesis by simp
  qed
qed


lemma roundScore_settled_caller:
  "player_id p = player_id (players ! nat i) \<Longrightarrow>
   roundScore (settled players i joker p)
     = case_score (caller_value players i joker) (lowest players joker) (winners players joker)"
  by (simp add: settled_def)

lemma roundScore_settled_other:
  "player_id p \<noteq> player_id (players ! nat i) \<Longrightarrow>
   roundScore (settled players i joker p) = calculateHandValue (player_hand p) joker"
  by (simp add: settled_def)

lemma caller_value_distinct:
  assumes "distinct (map player_id players)" "valid_index players i"
  shows "caller_value players i joker = calculateHandValue (player_hand (players ! nat i)) joker"
proof -
  from assms(2) have "nat i < length players" by (auto simp: valid_index_def)
  with assms(1) show ?thesis
    by (simp add: caller_value_def find_distinct_nth)
qed

lemma players_A_values: "hand_values players_A None = [3, 10, 8]"
  by (simp add: hand_values_def players_A_def card_of_def calculateHandValue_def)

text \<open>
  Claim C1. For a non-empty sequence of players with pairwise distinct ids and a valid
  caller index, \<open>getRoundScores\<close> returns one entry per player, in the order of the
  input; the caller's score is 0 when the caller's hand value is the minimum and exactly
  one player attains it, 25 when it is the minimum and more than one player attains it,
  and 50 otherwise (\<open>case_score\<close>); every other player's score is that player's own hand
  value.
\<close>

theorem getRoundScores_distinct_ids:
  assumes "players \<noteq> []" and "distinct (map player_id players)"
    and "valid_index players callerIndex"
  shows "\<exists>scores. getRoundScores players callerIndex joker = Inr scores
           \<and> length scores = length players
           \<and> map playerId scores = map player_id players
           \<and> roundScore (scores ! nat callerIndex)
               = case_score (hand_values players joker ! nat callerIndex)
                   (lowest players joker) (winners players joker)
           \<and> (\<forall>k<length players. k \<noteq> nat callerIndex \<longrightarrow>
                roundScore (scores ! k) = hand_values players joker ! k)"
proof -
  let ?i = "nat callerIndex"
  let ?scores = "map (settled players callerIndex joker) players"
  from assms(3) have i: "?i < length players" by (auto simp: valid_index_def)
  have cv: "caller_value players callerIndex joker = hand_values players joker ! ?i"
    using assms(2,3) i by (simp add: caller_value_distinct hand_values_def)
  have "getRoundScores players callerIndex joker = Inr ?scores"
    using assms(3) by (rule getRoundScores_valid)
  moreover have "length ?scores = length players" by simp
  moreover have "map playerId ?scores = map player_id players"
    by (simp add: settled_def)
  moreover have "roundScore (?scores ! ?i)
       = case_score (hand_values players joker ! ?i) (lowest players joker) (winners players joker)"
    using i by (simp add: roundScore_settled_caller cv)
  moreover have "\<forall>k<length players. k \<noteq> ?i \<longrightarrow>
                   roundScore (?scores ! k) = hand_values players joker ! k"
  proof (intro allI impI)
    fix k assume k: "k < length players" "k \<noteq> ?i"
    with assms(2) i have "player_id (players ! k) \<noteq> player_id (players ! ?i)"
      by (simp add: distinct_conv_nth)
    with k show "roundScore (?scores ! k) = hand_values players joker ! k"
      by (simp add: roundScore_settled_other hand_values_def)
  qed
  ultimately show ?thesis by blast
qed


theorem getRoundScores_distinct_ids_witness:
  "players_A \<noteq> [] \<and> distinct (map player_id players_A) \<and> valid_index players_A 0
   \<and> (\<exists>scores. getRoundScores players_A 0 None = Inr scores
         \<and> length scores = 3 \<and> map playerId scores = [0, 1, 2]
         \<and> roundScore (scores ! 0) = 0 \<and> roundScore (scores ! 1) = 10
         \<and> roundScore (scores ! 2) = 8)"
proof -
  have h: "players_A \<noteq> []" "distinct (map player_id players_A)" "valid_index players_A 0"
    by (simp_all add: players_A_def valid_index_def)
  have low: "lowest players_A None = 3" and win: "winners players_A None = 1"
    by (simp_all add: lowest_def winners_def players_A_values)
  from getRoundScores_distinct_ids [OF h, of None]
  obtain scores where s: "getRoundScores players_A 0 None = Inr scores"
      "length scores = length players_A" "map playerId scores = map player_id players_A"
      "roundScore (scores ! nat 0)
         = case_score (hand_values players_A None ! nat 0) (lowest players_A None)
             (winners players_A None)"
      "\<forall>k<length players_A. k \<noteq> nat 0 \<longrightarrow>
         roundScore (scores ! k) = hand_values players_A None ! k"
    by blast
  have len: "length players_A = 3" by (simp add: players_A_def)
  from s(5) [rule_format, of 1] s(5) [rule_format, of 2]
  have "roundScore (scores ! 1) = 10" "roundScore (scores ! 2) = 8"
    by (simp_all add: players_A_values len)
  moreover from s(4) have "roundScore (scores ! 0) = 0"
    by (simp add: players_A_values low win case_score_def)
  moreover from s(2,3) have "length scores = 3" "map playerId scores = [0, 1, 2]"
    by (simp_all add: players_A_def)
  ultimately show ?thesis using h s(1) by simp
qed

text \<open>
  Claim C10. The caller is identified by id, not by position: for a valid caller index,
  every player who carries the same id as the player at \<open>callerIndex\<close> receives the same
  score as the caller, one of 0, 25 and 50 (the case score computed from the value that the
  lookup by id finds), in place of the own hand value; the players with another id
  receive their own hand value. With ids that are not pairwise distinct a player other
  than the caller can therefore receive a score that is not the own hand value, as in the
  witness.
\<close>

theorem getRoundScores_same_id:
  assumes "valid_index players callerIndex" and "j < length players"
    and "player_id (players ! j) = player_id (players ! nat callerIndex)"
  shows "\<exists>scores. getRoundScores players callerIndex joker = Inr scores
           \<and> roundScore (scores ! j) = roundScore (scores ! nat callerIndex)
           \<and> roundScore (scores ! j)
               = case_score (caller_value players callerIndex joker)
                   (lowest players joker) (winners players joker)
           \<and> roundScore (scores ! j) \<in> {0, 25, 50}
           \<and> (\<forall>k<length players.
                 player_id (players ! k) \<noteq> player_id (players ! nat callerIndex) \<longrightarrow>
                 roundScore (scores ! k) = hand_values players joker ! k)"
proof -
  let ?i = "nat callerIndex"
  let ?scores = "map (settled players callerIndex joker) players"
  let ?s = "case_score (caller_value players callerIndex joker)
              (lowest players joker) (winners players joker)"
  from assms(1) have i: "?i < length players" by (auto simp: valid_index_def)
  have "getRoundScores players callerIndex joker = Inr ?scores"
    using assms(1) by (rule getRoundScores_valid)
  moreover have sj: "roundScore (?scores ! j) = ?s"
    using assms(2,3) by (simp add: roundScore_settled_caller)
  moreover have "roundScore (?scores ! ?i) = ?s"
    using i by (simp add: roundScore_settled_caller)
  moreover have "?s \<in> {0, 25, 50}" by (simp add: case_score_def)
  moreover have "\<forall>k<length players.
                   player_id (players ! k) \<noteq> player_id (players ! ?i) \<longrightarrow>
                   roundScore (?scores ! k) = hand_values players joker ! k"
    by (simp add: roundScore_settled_other hand_values_def)
  ultimately show ?thesis by simp
qed

theorem getRoundScores_same_id_witness:
  "valid_index players_dup 1 \<and> (1::nat) < length players_dup
   \<and> player_id (players_dup ! 0) = player_id (players_dup ! nat 1)
   \<and> hand_values players_dup None = [9, 2]
   \<and> (\<exists>scores. getRoundScores players_dup 1 None = Inr scores
         \<and> roundScore (scores ! 0) = 50 \<and> roundScore (scores ! 1) = 50)"
proof -
  have h: "valid_index players_dup 1" "0 < length players_dup"
      "player_id (players_dup ! 0) = player_id (players_dup ! nat 1)"
    by (simp_all add: players_dup_def valid_index_def)
  have vals: "hand_values players_dup None = [9, 2]"
    by (simp add: hand_values_def players_dup_def card_of_def calculateHandValue_def)
  have cv: "caller_value players_dup 1 None = 9"
    by (simp add: caller_value_def players_dup_def card_of_def calculateHandValue_def)
  have low: "lowest players_dup None = 2"
    by (simp add: lowest_def vals)
  from getRoundScores_same_id [OF h, of None]
  obtain scores where s: "getRoundScores players_dup 1 None = Inr scores"
      "roundScore (scores ! 0) = roundScore (scores ! nat 1)"
      "roundScore (scores ! 0)
         = case_score (caller_value players_dup 1 None) (lowest players_dup None)
             (winners players_dup None)"
    by blast
  from s(3) have "roundScore (scores ! 0) = 50"
    by (simp add: cv low case_score_def)
  with s(2) have "roundScore (scores ! 0) = 50 \<and> roundScore (scores ! 1) = 50"
    by simp
  with h vals s(1) show ?thesis by (auto simp: players_dup_def)
qed

text \<open>
  Claim C4, as stated, fails on the empty sequence of players: no callback runs, so
  nothing is thrown, and the result is the empty sequence.
\<close>

theorem getRoundScores_empty_counterexample:
  "\<not> valid_index ([] :: Player list) 0 \<and> getRoundScores [] 0 None = Inr []
   \<and> getRoundScores [] 0 None \<noteq> Inl TypeError"
  by (simp add: getRoundScores_def valid_index_def)

text \<open>
  Claim C4, amended. On a non-empty sequence of players every \<open>callerIndex\<close> that is not
  a valid index makes \<open>getRoundScores\<close> throw a \<open>TypeError\<close> instead of returning a
  result; on the empty sequence it returns the empty sequence for every \<open>callerIndex\<close>.
\<close>

theorem getRoundScores_invalid_index:
  "(players \<noteq> [] \<and> \<not> valid_index players callerIndex \<longrightarrow>
      getRoundScores players callerIndex joker = Inl TypeError)
   \<and> (\<forall>i j. getRoundScores [] i j = Inr [])"
  by (simp add: getRoundScores_invalid getRoundScores_empty)

theorem getRoundScores_invalid_index_witness:
  "players_A \<noteq> [] \<and> \<not> valid_index players_A 3 \<and> \<not> valid_index players_A (- 1)
   \<and> getRoundScores players_A 3 None = Inl TypeError
   \<and> getRoundScores players_A (- 1) joker_K_hearts = Inl TypeError
   \<and> getRoundScores [] 0 joker_K_hearts = Inr []
   \<and> getRoundScores [] 7 None = Inr []"
proof -
  have h: "players_A \<noteq> []" "\<not> valid_index players_A 3" "\<not> valid_index players_A (- 1)"
    by (simp_all add: players_A_def valid_index_def)
  from getRoundScores_invalid_index [of players_A 3 None] h
  have a: "getRoundScores players_A 3 None = Inl TypeError"
    and e: "\<forall>i j. getRoundScores [] i j = Inr []"
    by blast+
  from getRoundScores_invalid_index [of players_A "- 1" joker_K_hearts] h
  have b: "getRoundScores players_A (- 1) joker_K_hearts = Inl TypeError"
    by blast
  from e have "getRoundScores [] 0 joker_K_hearts = Inr []"
    and "getRoundScores [] 7 None = Inr []"
    by blast+
  with h a b show ?thesis by simp
qed

section \<open>Properties of \<open>decideBotAction\<close>: the toss rule\<close>

lemma set_first_seen: "set (first_seen xs) = set xs"
  by (induction xs) auto

lemma distinct_first_seen: "distinct (first_seen xs)"
  by (induction xs) (auto simp: set_first_seen)

lemma first_seen_snoc:
  "first_seen (xs @ [x]) = (if x \<in> set xs then first_seen xs else first_seen xs @ [x])"
  by (induction xs) auto

lemma cards_of_rank_snoc:
  "cards_of_rank r (hand @ [c])
     = (if card_rank c = r then cards_of_rank r hand @ [c] else cards_of_rank r hand)"
  by (simp add: cards_of_rank_def)

lemma cards_of_rank_absent:
  "r \<notin> set (map card_rank hand) \<Longrightarrow> cards_of_rank r hand = []"
  by (auto simp: cards_of_rank_def filter_empty_conv)

lemma group_by_rank_snoc:
  "group_by_rank (hand @ [c]) t =
     (case group_by_rank hand t of Inl e \<Rightarrow> Inl e | Inr t' \<Rightarrow> push_card t' c)"
  by (induction hand arbitrary: t) (simp_all split: sum.splits)

lemma map_of_table:
  "map_of (map (\<lambda>r. (r, f r)) ks) k = (if k \<in> set ks then Some (f k) else None)"
  by (induction ks) auto

lemma set_prop_new:
  "k \<notin> fst ` set t \<Longrightarrow> set_prop k v t = t @ [(k, v)]"
  by (induction t) auto

lemma set_prop_last:
  "k \<notin> fst ` set t \<Longrightarrow> set_prop k v (t @ [(k, w)]) = t @ [(k, v)]"
  by (induction t) auto

lemma set_prop_table:
  "distinct ks \<Longrightarrow> k \<in> set ks \<Longrightarrow>
   set_prop k v (map (\<lambda>r. (r, f r)) ks) = map (\<lambda>r. (r, if r = k then v else f r)) ks"
  by (induction ks) auto

lemma map_of_grouped:
  "map_of (grouped hand) r
     = (if r \<in> set (map card_rank hand) then Some (cards_of_rank r hand) else None)"
  unfolding grouped_def map_of_table set_first_seen ..

lemma keys_grouped: "map fst (grouped hand) = first_seen (map card_rank hand)"
  by (simp add: grouped_def comp_def)

lemma push_card_grouped:
  assumes "card_rank c \<notin> set object_prototype_keys"
  shows "push_card (grouped hand) c = Inr (grouped (hand @ [c]))"
proof (cases "card_rank c \<in> set (map card_rank hand)")
  case True
  then have g: "get_prop (grouped hand) (card_rank c) = Cards (cards_of_rank (card_rank c) hand)"
    by (simp add: get_prop_def map_of_grouped)
  have "set_prop (card_rank c) (cards_of_rank (card_rank c) hand @ [c]) (grouped hand)
          = grouped (hand @ [c])"
    unfolding grouped_def using True
    by (subst set_prop_table)
       (auto simp: distinct_first_seen set_first_seen first_seen_snoc cards_of_rank_snoc)
  with g show ?thesis by (simp add: push_card_def)
next
  case False
  then have g: "get_prop (grouped hand) (card_rank c) = Undefined"
    using assms by (simp add: get_prop_def map_of_grouped)
  from False have new: "card_rank c \<notin> fst ` set (grouped hand)"
    by (metis keys_grouped set_first_seen set_map)
  have t1: "set_prop (card_rank c) [] (grouped hand) = grouped hand @ [(card_rank c, [])]"
    using new by (rule set_prop_new)
  have g1: "get_prop (grouped hand @ [(card_rank c, [])]) (card_rank c) = Cards []"
    using False by (simp add: get_prop_def map_of_append map_of_grouped map_add_def)
  have "set_prop (card_rank c) [c] (grouped hand @ [(card_rank c, [])])
          = grouped hand @ [(card_rank c, [c])]"
    using new by (rule set_prop_last)
  moreover have "grouped (hand @ [c]) = grouped hand @ [(card_rank c, [c])]"
    using False
    by (auto simp: grouped_def first_seen_snoc cards_of_rank_snoc cards_of_rank_absent
          set_first_seen)
  ultimately show ?thesis by (simp add: push_card_def g t1 g1)
qed

lemma group_by_rank_grouped:
  "rank_names hand \<Longrightarrow> group_by_rank hand [] = Inr (grouped hand)"
proof (induction hand rule: rev_induct)
  case Nil
  then show ?case by (simp add: grouped_def)
next
  case (snoc c hand)
  then show ?case
    by (simp add: group_by_rank_snoc rank_names_def push_card_grouped)
qed


lemma first_two_nth:
  "2 \<le> length cs \<Longrightarrow> [card_id (cs ! 0), card_id (cs ! Suc 0)] = map card_id (take 2 cs)"
  by (cases cs; cases "tl cs") auto

lemma find_pair_grouped:
  "set ks \<subseteq> set (map card_rank hand) \<Longrightarrow>
   find_pair (grouped hand) ks
     = Inr (map_option (\<lambda>r. TOSS (first_two_ids r hand)) (List.find (has_pair hand) ks))"
proof (induction ks)
  case Nil
  then show ?case by simp
next
  case (Cons k ks)
  then have "map_of (grouped hand) k = Some (cards_of_rank k hand)"
    by (simp add: map_of_grouped)
  with Cons show ?case
    by (simp add: has_pair_def first_two_ids_def first_two_nth)
qed

lemma set_own_property_keys: "set (own_property_keys ks) = set ks"
  by (auto simp: own_property_keys_def)

lemma own_property_keys_no_index:
  "\<not> list_ex is_array_index ks \<Longrightarrow> own_property_keys ks = ks"
  by (simp add: own_property_keys_def list_ex_iff filter_empty_conv[THEN iffD2] cong: filter_cong)

lemma toss_rule:
  assumes "rank_names hand"
  shows "(case group_by_rank hand [] of
            Inl e \<Rightarrow> Inl e
          | Inr rankCounts \<Rightarrow> find_pair rankCounts (own_property_keys (map fst rankCounts)))
         = Inr (map_option (\<lambda>r. TOSS (first_two_ids r hand)) (toss_rank hand))"
proof -
  have "set (own_property_keys (first_seen (map card_rank hand))) \<subseteq> set (map card_rank hand)"
    by (simp add: set_own_property_keys set_first_seen)
  then show ?thesis
    using assms
    by (simp add: group_by_rank_grouped keys_grouped find_pair_grouped toss_rank_def)
qed

lemma has_pair_rank_in_hand: "has_pair hand r \<Longrightarrow> r \<in> set (map card_rank hand)"
  by (rule ccontr) (simp add: has_pair_def cards_of_rank_absent)

lemma toss_rank_Some:
  assumes "has_pair hand r0"
  shows "\<exists>r. toss_rank hand = Some r \<and> has_pair hand r"
proof -
  from assms have "r0 \<in> set (own_property_keys (first_seen (map card_rank hand)))"
    by (simp only: set_own_property_keys set_first_seen has_pair_rank_in_hand)
  with assms have "toss_rank hand \<noteq> None"
    unfolding toss_rank_def find_None_iff by blast
  then obtain r where r: "toss_rank hand = Some r" by auto
  then have "has_pair hand r"
    unfolding toss_rank_def by (auto simp: find_Some_iff)
  with r show ?thesis by simp
qed

lemma filter_distinct_le_1:
  "distinct (map f xs) \<Longrightarrow> length (filter (\<lambda>x. f x = r) xs) \<le> 1"
proof (induction xs)
  case Nil
  then show ?case by simp
next
  case (Cons x xs)
  show ?case
  proof (cases "f x = r")
    case True
    from Cons.prems have "f x \<notin> f ` set xs" by simp
    with True have "\<forall>y\<in>set xs. f y \<noteq> r" by blast
    then have "filter (\<lambda>x. f x = r) xs = []"
      by (simp add: filter_empty_conv)
    with True show ?thesis by simp
  next
    case False
    with Cons show ?thesis by simp
  qed
qed

lemma pairless_no_pair: "pairless hand \<Longrightarrow> \<not> has_pair hand r"
  using filter_distinct_le_1 [of card_rank hand r]
  by (simp add: pairless_def has_pair_def cards_of_rank_def)

lemma toss_rank_pairless: "pairless hand \<Longrightarrow> toss_rank hand = None"
  by (simp add: toss_rank_def find_None_iff pairless_no_pair)

lemmas key_defs = own_property_keys_def is_array_index_def is_digit_def numeric_value_def
  digit_value_def

lemmas hand_defs = card_of_def cards_of_rank_def has_pair_def rank_names_def
  object_prototype_keys_def pairless_def first_two_ids_def

text \<open>
  Claim C3, as stated, fails on a hand with two pairs whose second pair has a numeral
  rank: for the hand K, K, 7, 7 the first rank in first-seen order with two cards is K,
  but the loop over the keys of \<open>rankCounts\<close> visits the key 7 before the key K, and
  the two sevens are tossed.
\<close>

theorem decideBotAction_toss_counterexample:
  "rank_names hand_two_pairs \<and> has_pair hand_two_pairs ''K''
   \<and> first_seen_pair_rank hand_two_pairs = Some ''K''
   \<and> first_two_ids ''K'' hand_two_pairs = [''card-12-K-spades'', ''card-25-K-hearts'']
   \<and> decideBotAction (bot hand_two_pairs) None False
       = Inr (TOSS [''card-6-7-spades'', ''card-19-7-hearts''])
   \<and> decideBotAction (bot hand_two_pairs) None False
       \<noteq> Inr (TOSS (first_two_ids ''K'' hand_two_pairs))"
proof -
  have n: "rank_names hand_two_pairs"
    by (simp add: hand_two_pairs_def hand_defs)
  have p: "has_pair hand_two_pairs ''K''"
    by (simp add: hand_two_pairs_def hand_defs)
  have f: "first_seen_pair_rank hand_two_pairs = Some ''K''"
    by (simp add: first_seen_pair_rank_def hand_two_pairs_def hand_defs)
  have k: "first_two_ids ''K'' hand_two_pairs = [''card-12-K-spades'', ''card-25-K-hearts'']"
    by (simp add: hand_two_pairs_def hand_defs)
  have t: "toss_rank hand_two_pairs = Some ''7''"
    by (simp add: toss_rank_def hand_two_pairs_def hand_defs key_defs)
  have s: "first_two_ids ''7'' hand_two_pairs = [''card-6-7-spades'', ''card-19-7-hearts'']"
    by (simp add: hand_two_pairs_def hand_defs)
  have d: "decideBotAction (bot hand_two_pairs) None False
             = Inr (TOSS [''card-6-7-spades'', ''card-19-7-hearts''])"
    using toss_rule [OF n] by (simp add: decideBotAction_def Let_def bot_def t s)
  from n p f k d show ?thesis by simp
qed

text \<open>
  Claim C3, amended. For every player whose hand (of proper rank names) has at least two
  cards of some rank, with \<open>tossedThisTurn\<close> false, \<open>decideBotAction\<close> returns a toss,
  whatever the value of the hand; the toss names exactly the ids of the first two cards,
  in hand order, of the first rank with at least two cards when the ranks are taken in
  the order of the object's keys: the ranks that are array-index numerals in ascending
  numeric order, then the other ranks in first-seen hand order. When no rank of the hand
  is such a numeral, this is the first rank with two cards in first-seen hand order.
\<close>

theorem decideBotAction_toss:
  assumes "rank_names (player_hand player)" and "has_pair (player_hand player) r0"
  shows "\<exists>r. toss_rank (player_hand player) = Some r
           \<and> has_pair (player_hand player) r
           \<and> decideBotAction player joker False
               = Inr (TOSS (first_two_ids r (player_hand player)))
           \<and> length (first_two_ids r (player_hand player)) = 2
           \<and> (\<not> list_ex is_array_index (map card_rank (player_hand player)) \<longrightarrow>
                first_seen_pair_rank (player_hand player) = Some r)"
proof -
  let ?hand = "player_hand player"
  from toss_rank_Some [OF assms(2)]
  obtain r where r: "toss_rank ?hand = Some r" "has_pair ?hand r" by blast
  have "decideBotAction player joker False = Inr (TOSS (first_two_ids r ?hand))"
    by (simp add: decideBotAction_def Let_def toss_rule [OF assms(1)] r(1))
  moreover have "length (first_two_ids r ?hand) = 2"
    using r(2) by (simp add: first_two_ids_def has_pair_def)
  moreover have "\<not> list_ex is_array_index (map card_rank ?hand) \<longrightarrow>
                   first_seen_pair_rank ?hand = Some r"
  proof
    assume "\<not> list_ex is_array_index (map card_rank ?hand)"
    then have "\<not> list_ex is_array_index (first_seen (map card_rank ?hand))"
      by (simp add: list_ex_iff set_first_seen)
    then have "own_property_keys (first_seen (map card_rank ?hand)) = first_seen (map card_rank ?hand)"
      by (rule own_property_keys_no_index)
    with r(1) show "first_seen_pair_rank ?hand = Some r"
      by (simp add: first_seen_pair_rank_def toss_rank_def)
  qed
  ultimately show ?thesis using r by blast
qed


theorem decideBotAction_toss_witness:
  "rank_names (player_hand (bot hand_faces)) \<and> has_pair (player_hand (bot hand_faces)) ''Q''
   \<and> \<not> list_ex is_array_index (map card_rank (player_hand (bot hand_faces)))
   \<and> first_seen_pair_rank hand_faces = Some ''K''
   \<and> decideBotAction (bot hand_faces) None False
       = Inr (TOSS [''card-12-K-spades'', ''card-25-K-hearts''])"
proof -
  have h: "rank_names (player_hand (bot hand_faces))"
      "has_pair (player_hand (bot hand_faces)) ''Q''"
    by (simp_all add: bot_def hand_faces_def hand_defs)
  have a: "\<not> list_ex is_array_index (map card_rank (player_hand (bot hand_faces)))"
    by (simp add: bot_def hand_faces_def hand_defs key_defs)
  have t: "toss_rank hand_faces = Some ''K''"
    by (simp add: toss_rank_def hand_faces_def hand_defs key_defs)
  have k: "first_two_ids ''K'' hand_faces = [''card-12-K-spades'', ''card-25-K-hearts'']"
    by (simp add: hand_faces_def hand_defs)
  from decideBotAction_toss [OF h, of None] obtain r where
    r: "toss_rank (player_hand (bot hand_faces)) = Some r"
       "decideBotAction (bot hand_faces) None False
          = Inr (TOSS (first_two_ids r (player_hand (bot hand_faces))))"
       "\<not> list_ex is_array_index (map card_rank (player_hand (bot hand_faces))) \<longrightarrow>
          first_seen_pair_rank (player_hand (bot hand_faces)) = Some r"
    by blast
  from r(1) t have "r = ''K''" by (simp add: bot_def)
  with r(2,3) a k h show ?thesis by (simp add: bot_def)
qed

section \<open>Properties of \<open>decideBotAction\<close>: the show and discard rules\<close>

lemma find_snoc:
  "List.find P (xs @ [x])
     = (case List.find P xs of None \<Rightarrow> (if P x then Some x else None) | Some y \<Rightarrow> Some y)"
  by (induction xs) simp_all

lemma discard_scan:
  fixes joker h0 hand
  defines "st \<equiv> foldl (discard_step joker) (h0, - 1) hand"
  shows "snd st = Max (insert (- 1) (set (map (effective_value joker) hand)))
         \<and> (if snd st > - 1
             then fst st = List.find (\<lambda>c. effective_value joker c = snd st) hand
             else fst st = h0)"
  unfolding st_def
proof (induction hand rule: rev_induct)
  case Nil
  then show ?case by simp
next
  case (snoc c hand)
  let ?e = "effective_value joker"
  let ?st = "foldl (discard_step joker) (h0, - 1) hand"
  let ?M = "Max (insert (- 1) (set (map ?e hand)))"
  from snoc have hv: "snd ?st = ?M"
    and hc: "if snd ?st > - 1 then fst ?st = List.find (\<lambda>c. ?e c = snd ?st) hand
             else fst ?st = h0"
    by simp_all
  have le: "\<forall>x\<in>set hand. ?e x \<le> ?M" by simp
  have "insert (- 1) (set (map ?e (hand @ [c])))
          = insert (?e c) (insert (- 1) (set (map ?e hand)))"
    by auto
  then have M': "Max (insert (- 1) (set (map ?e (hand @ [c])))) = max (?e c) ?M"
    by (simp only: Max_insert [OF finite_insert [THEN iffD2, OF finite_set] insert_not_empty])
  show ?case
  proof (cases "?e c > snd ?st")
    case True
    then have step: "foldl (discard_step joker) (h0, - 1) (hand @ [c]) = (Some c, ?e c)"
      by (simp add: discard_step_def)
    from True hv le have "\<forall>x\<in>set hand. ?e x \<noteq> ?e c" by fastforce
    then have "List.find (\<lambda>x. ?e x = ?e c) hand = None"
      by (simp add: find_None_iff)
    moreover from True hv have "- 1 < ?e c" by simp
    moreover from True hv have "max (?e c) ?M = ?e c" by simp
    ultimately show ?thesis
      unfolding step M' by (simp add: find_snoc)
  next
    case False
    then have step: "foldl (discard_step joker) (h0, - 1) (hand @ [c]) = ?st"
      by (simp add: discard_step_def)
    from False have "?e c \<le> snd ?st" by simp
    then have "?e c \<le> ?M" by (simp only: hv)
    then have m: "max (?e c) ?M = ?M" by (rule max_absorb2)
    show ?thesis
    proof (cases "snd ?st > - 1")
      case True
      with hc have f: "fst ?st = List.find (\<lambda>c. ?e c = snd ?st) hand" by simp
      from True hv have "?M \<in> set (map ?e hand)"
        using Max_in [of "insert (- 1) (set (map ?e hand))"] by auto
      then obtain y where "y \<in> set hand" "?e y = snd ?st" using hv by auto
      then have "List.find (\<lambda>c. ?e c = snd ?st) hand \<noteq> None"
        by (auto simp: find_None_iff)
      with f True show ?thesis
        unfolding step M' m using hv by (auto simp: find_snoc)
    next
      case False
      with hc show ?thesis
        unfolding step M' m using hv by simp
    qed
  qed
qed

lemma positive_card:
  assumes "calculateHandValue hand joker > 5"
  shows "\<exists>c\<in>set hand. effective_value joker c > 0"
proof (rule ccontr)
  assume "\<not> ?thesis"
  then have "\<forall>x\<in>set (map (effective_value joker) hand). x \<le> 0" by auto
  then have "sum_list (map (effective_value joker) hand) \<le> 0"
    by (intro sum_list_nonpos) auto
  with assms show False by (simp add: calculateHandValue_effective)
qed

lemma discard_rule:
  assumes "calculateHandValue hand joker > 5"
  shows "\<exists>c. List.find (is_max joker hand) hand = Some c
           \<and> fst (foldl (discard_step joker) (first_card hand, - 1) hand) = Some c"
proof -
  let ?e = "effective_value joker"
  let ?st = "foldl (discard_step joker) (first_card hand, - 1) hand"
  from positive_card [OF assms] obtain c0 where c0: "c0 \<in> set hand" "?e c0 > 0" by blast
  then have ne: "set (map ?e hand) \<noteq> {}" by auto
  have "?e c0 \<le> max_effective joker hand"
    unfolding max_effective_def using c0(1) by simp
  with c0(2) have pos: "max_effective joker hand > 0" by simp
  have "snd ?st = max (- 1) (max_effective joker hand)"
    using discard_scan [of joker "first_card hand" hand] ne
    by (simp add: max_effective_def)
  with pos have hv: "snd ?st = max_effective joker hand" by simp
  with pos discard_scan [of joker "first_card hand" hand]
  have f: "fst ?st = List.find (is_max joker hand) hand"
    by (simp add: is_max_def [abs_def])
  have "max_effective joker hand \<in> set (map ?e hand)"
    unfolding max_effective_def using ne by (intro Max_in) simp_all
  then have "List.find (is_max joker hand) hand \<noteq> None"
    by (auto simp: find_None_iff is_max_def)
  with f show ?thesis by auto
qed

lemma no_toss:
  assumes "tossed \<or> (pairless hand \<and> rank_names hand)"
  shows "(if \<not> tossed then
            (case group_by_rank hand [] of
               Inl e \<Rightarrow> Inl e
             | Inr rankCounts \<Rightarrow> find_pair rankCounts (own_property_keys (map fst rankCounts)))
          else Inr None) = Inr None"
  using assms by (auto simp: toss_rule toss_rank_pairless)

text \<open>
  Claim C6. For every player for whom the toss rule does not fire (\<open>tossedThisTurn\<close> is
  true, or no rank occurs twice in the hand, whose ranks are proper rank names),
  \<open>decideBotAction\<close> returns the show action if and only if the value of the hand is at
  most 5, and a discard of one card when the value is greater; so a pairless hand of value
  5 shows and one of value 6 discards.
\<close>

theorem decideBotAction_show_iff:
  assumes "tossed \<or> (pairless (player_hand player) \<and> rank_names (player_hand player))"
  shows "(decideBotAction player joker tossed = Inr SHOW
            \<longleftrightarrow> calculateHandValue (player_hand player) joker \<le> 5)
         \<and> (calculateHandValue (player_hand player) joker > 5 \<longrightarrow>
              (\<exists>i. decideBotAction player joker tossed = Inr (DISCARD [i])))"
proof (cases "calculateHandValue (player_hand player) joker \<le> 5")
  case True
  then show ?thesis
    by (simp add: decideBotAction_def Let_def no_toss [OF assms])
next
  case False
  then have "calculateHandValue (player_hand player) joker > 5" by simp
  from discard_rule [OF this] obtain c
    where "fst (foldl (discard_step joker) (first_card (player_hand player), - 1)
                 (player_hand player)) = Some c"
    by blast
  with False show ?thesis
    by (simp add: decideBotAction_def Let_def no_toss [OF assms])
qed

theorem decideBotAction_show_iff_witness:
  "pairless (player_hand (bot hand_five)) \<and> rank_names (player_hand (bot hand_five))
   \<and> calculateHandValue (player_hand (bot hand_five)) None = 5
   \<and> decideBotAction (bot hand_five) None False = Inr SHOW
   \<and> pairless (player_hand (bot hand_six)) \<and> rank_names (player_hand (bot hand_six))
   \<and> calculateHandValue (player_hand (bot hand_six)) None = 6
   \<and> decideBotAction (bot hand_six) None False \<noteq> Inr SHOW
   \<and> (\<exists>i. decideBotAction (bot hand_six) None False = Inr (DISCARD [i]))"
proof -
  have five: "pairless (player_hand (bot hand_five)) \<and> rank_names (player_hand (bot hand_five))"
    by (simp add: bot_def hand_five_def hand_defs)
  have six: "pairless (player_hand (bot hand_six)) \<and> rank_names (player_hand (bot hand_six))"
    by (simp add: bot_def hand_six_def hand_defs)
  have v5: "calculateHandValue (player_hand (bot hand_five)) None = 5"
    by (simp add: bot_def hand_five_def card_of_def calculateHandValue_def)
  have v6: "calculateHandValue (player_hand (bot hand_six)) None = 6"
    by (simp add: bot_def hand_six_def card_of_def calculateHandValue_def)
  from decideBotAction_show_iff [OF disjI2, OF five, of None]
       decideBotAction_show_iff [OF disjI2, OF six, of None] five six v5 v6
  show ?thesis by simp
qed




section \<open>Properties of \<open>shuffleDeck\<close>\<close>

lemma random_index_le:
  assumes "0 \<le> r" "r < 1"
  shows "random_index r i \<le> i"
proof -
  have "r * real (i + 1) < real (i + 1)"
    using assms by simp
  then have "\<lfloor>r * real (i + 1)\<rfloor> < int (i + 1)"
    by (simp add: floor_less_iff)
  then show ?thesis
    by (simp add: random_index_def)
qed

lemma drawn_le: "unit_interval rnd \<Longrightarrow> drawn rnd n i \<le> i"
  by (simp add: drawn_def unit_interval_def random_index_le)

lemma length_swap: "length (swap a i j) = length a"
  by (simp add: swap_def)

lemma mset_swap_in_range:
  "i < length a \<Longrightarrow> j < length a \<Longrightarrow> mset (swap a i j) = mset a"
  unfolding swap_def by (rule mset_swap)

lemma length_fisher_yates: "length (fisher_yates draw n xs) = length xs"
  by (induction n arbitrary: xs) (simp_all add: length_swap)

lemma mset_fisher_yates:
  assumes "\<And>i. draw i \<le> i"
  shows "n < length xs \<Longrightarrow> mset (fisher_yates draw n xs) = mset xs"
proof (induction n arbitrary: xs)
  case 0
  then show ?case by simp
next
  case (Suc n)
  from assms [of "Suc n"] Suc.prems have "draw (Suc n) < length xs" by simp
  with Suc.prems have "mset (swap xs (Suc n) (draw (Suc n))) = mset xs"
    by (simp add: mset_swap_in_range)
  moreover from Suc.prems have "n < length (swap xs (Suc n) (draw (Suc n)))"
    by (simp add: length_swap)
  ultimately show ?case
    using Suc.IH by simp
qed

lemma mset_fisher_yates_last:
  assumes "\<And>i. draw i \<le> i"
  shows "mset (fisher_yates draw (length xs - 1) xs) = mset xs"
proof (cases xs)
  case Nil
  then show ?thesis by simp
next
  case (Cons x rest)
  then have "length xs - 1 < length xs" by simp
  with assms show ?thesis by (rule mset_fisher_yates)
qed

lemma shuffle_loop_store:
  "newDeck < length st \<Longrightarrow>
   shuffle_loop rnd newDeck n k st
     = st[newDeck := fisher_yates (\<lambda>i. random_index (rnd (k + n - i)) i) n (st ! newDeck)]"
proof (induction n arbitrary: k st)
  case 0
  then show ?case by simp
next
  case (Suc n)
  let ?a = "swap (st ! newDeck) (Suc n) (random_index (rnd k) (Suc n))"
  from Suc.prems have "newDeck < length (st[newDeck := ?a])" by simp
  from Suc.IH [OF this, of "Suc k"] Suc.prems
  show ?case by simp
qed

lemma shuffleDeck_result:
  assumes "deck < length st"
  shows "shuffleDeck rnd st deck
           = (length st,
              st @ [fisher_yates (drawn rnd (length (st ! deck))) (length (st ! deck) - 1)
                      (st ! deck)])"
proof -
  let ?n = "length (st ! deck)"
  have "(\<lambda>i. random_index (rnd (0 + (?n - 1) - i)) i) = drawn rnd ?n"
    by (rule ext) (simp add: drawn_def)
  then show ?thesis
    using assms
    by (simp add: shuffleDeck_def Let_def shuffle_loop_store nth_append)
qed

lemma mset_shuffleDeck:
  assumes "deck < length st" and "unit_interval rnd"
  shows "mset (returned (shuffleDeck rnd st deck)) = mset (st ! deck)"
proof -
  from assms(2) have "\<And>i. drawn rnd (length (st ! deck)) i \<le> i"
    by (rule drawn_le)
  then have "mset (fisher_yates (drawn rnd (length (st ! deck))) (length (st ! deck) - 1)
                     (st ! deck)) = mset (st ! deck)"
    by (rule mset_fisher_yates_last)
  with assms(1) show ?thesis
    by (simp add: shuffleDeck_result returned_def)
qed

text \<open>
  Claim C8. \<open>shuffleDeck\<close> returns a new array (its address is the first free one) and
  leaves every array of the store, the input among them, as it was; the array returned
  has the same multiset of elements as the input; and it is the result of the
  Fisher--Yates scheme on the input: for each index \<open>i\<close> from the last down to 1 the
  elements at \<open>i\<close> and at the index drawn for \<open>i\<close> are swapped, where the index drawn
  lies between 0 and \<open>i\<close>.
\<close>

theorem shuffleDeck_permutation:
  assumes "deck < length st" and "unit_interval rnd"
  shows "fst (shuffleDeck rnd st deck) = length st
         \<and> take (length st) (snd (shuffleDeck rnd st deck)) = st
         \<and> snd (shuffleDeck rnd st deck) ! deck = st ! deck
         \<and> mset (returned (shuffleDeck rnd st deck)) = mset (st ! deck)
         \<and> returned (shuffleDeck rnd st deck)
             = fisher_yates (drawn rnd (length (st ! deck))) (length (st ! deck) - 1) (st ! deck)
         \<and> (\<forall>i. drawn rnd (length (st ! deck)) i \<le> i)"
proof -
  from assms(2) have d: "\<And>i. drawn rnd (length (st ! deck)) i \<le> i"
    by (rule drawn_le)
  have m: "mset (returned (shuffleDeck rnd st deck)) = mset (st ! deck)"
    using assms by (rule mset_shuffleDeck)
  have "returned (shuffleDeck rnd st deck)
          = fisher_yates (drawn rnd (length (st ! deck))) (length (st ! deck) - 1) (st ! deck)"
    using assms(1) by (simp add: shuffleDeck_result returned_def)
  with d m assms(1) show ?thesis
    by (simp add: shuffleDeck_result nth_append)
qed


theorem shuffleDeck_permutation_witness:
  "(0::nat) < length example_store \<and> unit_interval half
   \<and> fst (shuffleDeck half example_store 0) = 1
   \<and> snd (shuffleDeck half example_store 0) ! 0 = [''A'', ''B'', ''C'', ''D'']
   \<and> returned (shuffleDeck half example_store 0) = [''A'', ''D'', ''B'', ''C'']"
proof -
  have h: "0 < length example_store" "unit_interval half"
    by (simp_all add: example_store_def unit_interval_def half_def)
  have d: "drawn half n (Suc (Suc (Suc 0))) = Suc (Suc 0)"
      "drawn half n (Suc (Suc 0)) = Suc 0" "drawn half n (Suc 0) = Suc 0" for n
    by (simp_all add: drawn_def half_def random_index_def)
  note t = shuffleDeck_permutation [OF h]
  from t have "returned (shuffleDeck half example_store 0)
                 = fisher_yates (drawn half (length (example_store ! 0)))
                     (length (example_store ! 0) - 1) (example_store ! 0)"
    by simp
  also have "\<dots> = [''A'', ''D'', ''B'', ''C'']"
    by (simp add: example_store_def d swap_def)
  finally have r: "returned (shuffleDeck half example_store 0) = [''A'', ''D'', ''B'', ''C'']" .
  from t have "fst (shuffleDeck half example_store 0) = 1"
    and "snd (shuffleDeck half example_store 0) ! 0 = [''A'', ''B'', ''C'', ''D'']"
    by (simp_all add: example_store_def)
  with h r show ?thesis by simp
qed


section \<open>Properties of \<open>createDeck\<close>\<close>

lemma numbered_append:
  "numbered V n (ps @ qs) = numbered V n ps @ numbered V (n + length ps) qs"
  by (simp add: numbered_def enumerate_append_eq)

lemma rank_loop_numbered:
  "rank_loop V suit ranks (deck, n)
     = (deck @ numbered V n (map (Pair suit) ranks), n + length ranks)"
proof (induction ranks arbitrary: deck n)
  case Nil
  then show ?case by (simp add: numbered_def)
next
  case (Cons rank ranks)
  have "numbered V n (map (Pair suit) (rank # ranks))
          = new_card V n suit rank # numbered V (Suc n) (map (Pair suit) ranks)"
    by (simp add: numbered_def)
  with Cons show ?case by simp
qed

lemma suit_loop_numbered:
  "suit_loop RANKS V suits (deck, n)
     = (deck @ numbered V n (List.product suits RANKS), n + length suits * length RANKS)"
proof (induction suits arbitrary: deck n)
  case Nil
  then show ?case by (simp add: numbered_def)
next
  case (Cons suit suits)
  then show ?case
    by (simp add: rank_loop_numbered numbered_append add.assoc)
qed

lemma length_numbered: "length (numbered V n ps) = length ps"
  by (simp add: numbered_def)

lemma suit_rank_numbered: "map suit_rank (numbered V n ps) = ps"
proof -
  have "map suit_rank (numbered V n ps) = map snd (List.enumerate n ps)"
    by (simp add: numbered_def suit_rank_def new_card_def case_prod_beta comp_def)
  then show ?thesis by (simp add: map_snd_enumerate)
qed

lemma value_numbered: "c \<in> set (numbered V n ps) \<Longrightarrow> card_value c = V (card_rank c)"
  by (auto simp: numbered_def new_card_def)

lemma digit_char_neq_dash: "d < 10 \<Longrightarrow> digit_char d \<noteq> CHR ''-''"
proof -
  assume "d < 10"
  then have "d \<in> {0, 1, 2, 3, 4, 5, 6, 7, 8, 9}" by auto
  then show ?thesis by (auto simp: digit_char_def)
qed

lemma digit_char_inj: "d < 10 \<Longrightarrow> e < 10 \<Longrightarrow> digit_char d = digit_char e \<Longrightarrow> d = e"
proof -
  assume "d < 10" "e < 10" and eq: "digit_char d = digit_char e"
  then have "d \<in> {0, 1, 2, 3, 4, 5, 6, 7, 8, 9}" "e \<in> {0, 1, 2, 3, 4, 5, 6, 7, 8, 9}" by auto
  with eq show ?thesis by (auto simp: digit_char_def)
qed

lemma string_of_nat_unfold:
  "string_of_nat n =
     (if n < 10 then [digit_char n] else string_of_nat (n div 10) @ [digit_char (n mod 10)])"
  by (rule string_of_nat.simps)

lemma string_of_nat_not_Nil: "string_of_nat n \<noteq> []"
  by (subst string_of_nat_unfold) simp

lemma dash_notin_string_of_nat: "CHR ''-'' \<notin> set (string_of_nat n)"
proof (induction n rule: string_of_nat.induct)
  case (1 n)
  show ?case
  proof (cases "n < 10")
    case True
    then show ?thesis
      using digit_char_neq_dash [of n] by (subst string_of_nat_unfold) auto
  next
    case False
    with 1 have "CHR ''-'' \<notin> set (string_of_nat (n div 10))" by simp
    moreover have "digit_char (n mod 10) \<noteq> CHR ''-''"
      by (rule digit_char_neq_dash) simp
    ultimately show ?thesis
      using False by (subst string_of_nat_unfold) auto
  qed
qed

lemma string_of_nat_inj: "string_of_nat n = string_of_nat m \<Longrightarrow> n = m"
proof (induction n arbitrary: m rule: string_of_nat.induct)
  case (1 n)
  show ?case
  proof (cases "n < 10")
    case n: True
    show ?thesis
    proof (cases "m < 10")
      case True
      with n "1.prems" have "digit_char n = digit_char m"
        by (subst (asm) (1 2) string_of_nat_unfold) simp
      with n True show ?thesis by (rule digit_char_inj)
    next
      case False
      with n "1.prems" have "string_of_nat (m div 10) = []"
        by (subst (asm) (1 2) string_of_nat_unfold) simp
      then show ?thesis by (simp add: string_of_nat_not_Nil)
    qed
  next
    case n: False
    show ?thesis
    proof (cases "m < 10")
      case True
      with n "1.prems" have "string_of_nat (n div 10) = []"
        by (subst (asm) (1 2) string_of_nat_unfold) simp
      then show ?thesis by (simp add: string_of_nat_not_Nil)
    next
      case False
      with n "1.prems" have "string_of_nat (n div 10) = string_of_nat (m div 10)"
          and d: "digit_char (n mod 10) = digit_char (m mod 10)"
        by (subst (asm) (1 2) string_of_nat_unfold, simp)+
      with n "1.IH" have "n div 10 = m div 10" by simp
      moreover from d have "n mod 10 = m mod 10"
        by (intro digit_char_inj) simp_all
      ultimately show ?thesis by (metis div_mult_mod_eq)
    qed
  qed
qed

lemma split_at_first:
  "c \<notin> set xs \<Longrightarrow> c \<notin> set ys \<Longrightarrow> xs @ c # a = ys @ c # b \<Longrightarrow> xs = ys"
proof (induction xs arbitrary: ys)
  case Nil
  then show ?case by (cases ys) auto
next
  case (Cons x xs)
  then show ?case by (cases ys) auto
qed

lemma card_name_inj: "card_name n r s = card_name m r' s' \<Longrightarrow> n = m"
proof -
  assume "card_name n r s = card_name m r' s'"
  then have "string_of_nat n @ CHR ''-'' # (r @ ''-'' @ s)
               = string_of_nat m @ CHR ''-'' # (r' @ ''-'' @ s')"
    by (simp add: card_name_def)
  then have "string_of_nat n = string_of_nat m"
    by (rule split_at_first [OF dash_notin_string_of_nat dash_notin_string_of_nat])
  then show ?thesis by (rule string_of_nat_inj)
qed

lemma distinct_ids_numbered: "distinct (map card_id (numbered V n ps))"
proof -
  let ?f = "\<lambda>(k, (suit, rank)). card_name k rank suit"
  have "inj_on ?f (set (List.enumerate n ps))"
  proof (rule inj_onI)
    fix p q
    assume p: "p \<in> set (List.enumerate n ps)" and q: "q \<in> set (List.enumerate n ps)"
      and eq: "?f p = ?f q"
    from eq have "fst p = fst q"
      by (auto simp: case_prod_beta dest: card_name_inj)
    with p q have "snd p = snd q"
      by (simp add: in_set_enumerate_eq)
    with \<open>fst p = fst q\<close> show "p = q" by (simp add: prod_eq_iff)
  qed
  then have "distinct (map ?f (List.enumerate n ps))"
    by (simp add: distinct_map distinct_enumerate)
  moreover have "map card_id (numbered V n ps) = map ?f (List.enumerate n ps)"
    by (simp add: numbered_def new_card_def case_prod_beta comp_def)
  ultimately show ?thesis by simp
qed

lemma createDeck_result:
  "createDeck SUITS RANKS V rnd st
     = shuffleDeck rnd (st @ [numbered V 0 (List.product SUITS RANKS)]) (length st)"
  by (simp add: createDeck_def Let_def suit_loop_numbered)

text \<open>
  Claim C7. The deck that \<open>createDeck\<close> returns has exactly \<open>|SUITS| * |RANKS|\<close>
  cards; the pairs of suit and rank of its cards are the combinations of a suit of
  \<open>SUITS\<close> and a rank of \<open>RANKS\<close>, each exactly once (the two constant arrays having no
  repeated entry); the card ids are pairwise distinct; and the value of each card is the
  entry of \<open>RANK_VALUES\<close> for its rank.
\<close>

theorem createDeck_complete:
  assumes "unit_interval rnd" and "distinct SUITS" and "distinct RANKS"
  shows "length (returned (createDeck SUITS RANKS RANK_VALUES rnd st))
           = length SUITS * length RANKS
         \<and> mset (map suit_rank (returned (createDeck SUITS RANKS RANK_VALUES rnd st)))
             = mset (List.product SUITS RANKS)
         \<and> distinct (map suit_rank (returned (createDeck SUITS RANKS RANK_VALUES rnd st)))
         \<and> distinct (map card_id (returned (createDeck SUITS RANKS RANK_VALUES rnd st)))
         \<and> (\<forall>c\<in>set (returned (createDeck SUITS RANKS RANK_VALUES rnd st)).
               card_value c = RANK_VALUES (card_rank c))"
proof -
  let ?cards = "numbered RANK_VALUES 0 (List.product SUITS RANKS)"
  let ?deck = "returned (createDeck SUITS RANKS RANK_VALUES rnd st)"
  have "length st < length (st @ [?cards])" by simp
  from mset_shuffleDeck [OF this assms(1)]
  have m: "mset ?deck = mset ?cards"
    by (simp add: createDeck_result)
  then have "length ?deck = length ?cards"
    by (rule mset_eq_length)
  then have len: "length ?deck = length SUITS * length RANKS"
    by (simp add: length_numbered)
  from m have "mset (map suit_rank ?deck) = mset (map suit_rank ?cards)"
    by simp
  then have sr: "mset (map suit_rank ?deck) = mset (List.product SUITS RANKS)"
    by (simp only: suit_rank_numbered)
  from assms(2,3) have "distinct (List.product SUITS RANKS)"
    by (rule distinct_product)
  with sr have dsr: "distinct (map suit_rank ?deck)"
    by (simp only: mset_eq_imp_distinct_iff [OF sr])
  from m have "mset (map card_id ?deck) = mset (map card_id ?cards)"
    by simp
  then have ids: "distinct (map card_id ?deck)"
    by (simp only: mset_eq_imp_distinct_iff distinct_ids_numbered)
  from m have "set ?deck = set ?cards"
    by (rule mset_eq_setD)
  then have "\<forall>c\<in>set ?deck. card_value c = RANK_VALUES (card_rank c)"
    by (simp add: value_numbered)
  with len sr dsr ids show ?thesis by simp
qed


theorem createDeck_complete_witness:
  "unit_interval half \<and> distinct two_suits \<and> distinct two_ranks
   \<and> length (returned (createDeck two_suits two_ranks two_values half [])) = 4
   \<and> mset (map suit_rank (returned (createDeck two_suits two_ranks two_values half [])))
       = {#(''hearts'', ''A''), (''hearts'', ''K''), (''spades'', ''A''), (''spades'', ''K'')#}
   \<and> distinct (map card_id (returned (createDeck two_suits two_ranks two_values half [])))"
proof -
  have h: "unit_interval half" "distinct two_suits" "distinct two_ranks"
    by (simp_all add: unit_interval_def half_def two_suits_def two_ranks_def)
  have p: "length two_suits * length two_ranks = 4"
      "mset (List.product two_suits two_ranks)
         = {#(''hearts'', ''A''), (''hearts'', ''K''), (''spades'', ''A''), (''spades'', ''K'')#}"
    by (simp_all add: two_suits_def two_ranks_def)
  from createDeck_complete [OF h, of two_values "[]"] h
  show ?thesis by (simp only: p)
qed

end
